theory Spec2Isabelle
  imports Complex_Main "HOL-Library.AList"
begin

section \<open>Data model of reduce.py\<close>

text \<open>
  Coordinates are Python floats. Every finite float is a rational number, so a coordinate
  is modelled as a pair of rationals \<open>(lon, lat)\<close>; NaN and the infinities are outside the
  model, and so is a coordinate with a third component, which \<open>for lon, lat in\<close> cannot
  unpack. Python's integers are unbounded, hence \<open>int\<close> for identifiers and counters.
\<close>

type_synonym coord = "rat \<times> rat"

text \<open>
  A tag dictionary (\<open>dict(w.tags)\<close>, or the literal fallback dictionary) is an association
  list of its items in insertion order. The empty list is the dictionary that Python
  treats as false.
\<close>

type_synonym tags = "(string \<times> string) list"

datatype error =
    ZeroDivisionError
  | FileNotFoundError
  | MalformedGeometry
  | UnreadableMap

subsection \<open>The built-in \<open>round(x, ndigits)\<close>\<close>

text \<open>
  Python rounds the exact value of the float to \<open>ndigits\<close> decimal places, ties going to
  the even neighbour. The model returns that decimal as a rational (Python returns the
  float nearest to it, which for 6 or 7 places in the range of coordinates identifies
  the decimal).
\<close>

definition round_half_even :: "rat \<Rightarrow> int" where
  "round_half_even x =
     (let f = \<lfloor>x\<rfloor>; d = x - of_int f
      in if d < 1 / 2 then f
         else if 1 / 2 < d then f + 1
         else if even f then f else f + 1)"

definition py_round :: "rat \<Rightarrow> nat \<Rightarrow> rat" where
  "py_round x ndigits = of_int (round_half_even (x * 10 ^ ndigits)) / 10 ^ ndigits"

subsection \<open>Objects of the map-data file and of the sink\<close>

text \<open>
  What osmium hands to the handler callbacks and what the script hands to the writer:
  a node with its location, a way with its node references and tags. Relations exist in
  a file but the script has no callback for them.
\<close>

record osm_node =
  n_id :: int
  n_location :: coord
  n_version :: int
  n_visible :: bool

record osm_way =
  w_id :: int
  w_nodes :: "int list"
  w_tags :: tags
  w_version :: int
  w_visible :: bool

datatype osm_object = Node osm_node | Way osm_way | Relation int

text \<open>An entry of \<open>OSMDataExtractor.ways\<close>: \<open>{'tags': ..., 'coords': ...}\<close>.\<close>

record way_data =
  wd_tags :: tags
  wd_coords :: "coord list"

section \<open>OSMDataExtractor\<close>

text \<open>
  \<open>self.nodes\<close> is only looked up by key, so it is a map. \<open>self.ways\<close> is later
  enumerated with \<open>items()\<close>, which follows insertion order: it is an association list,
  and \<open>AList.update\<close> is assignment to a dict key (a present key keeps its place, a new
  key goes to the end).
\<close>

record extractor =
  nodes :: "int \<rightharpoonup> coord"
  ways :: "(int \<times> way_data) list"

definition extractor_init :: extractor where
  "extractor_init = \<lparr>nodes = Map.empty, ways = []\<rparr>"

definition node :: "extractor \<Rightarrow> osm_node \<Rightarrow> extractor" where
  "node self n = self\<lparr>nodes := (nodes self)(n_id n \<mapsto> n_location n)\<rparr>"

text \<open>The loop of \<open>way\<close> over \<open>w.nodes\<close>, appending the coordinates of the known references.\<close>

fun resolve_refs :: "(int \<rightharpoonup> coord) \<Rightarrow> int list \<Rightarrow> coord list \<Rightarrow> coord list" where
  "resolve_refs ns [] coords = coords"
| "resolve_refs ns (ref # refs) coords =
     (case ns ref of
        Some c \<Rightarrow> resolve_refs ns refs (coords @ [c])
      | None \<Rightarrow> resolve_refs ns refs coords)"

definition way :: "extractor \<Rightarrow> osm_way \<Rightarrow> extractor" where
  "way self w =
     (if ''highway'' \<notin> fst ` set (w_tags w) then self
      else
        let coords = resolve_refs (nodes self) (w_nodes w) []
        in if 2 \<le> length coords
           then self\<lparr>ways := AList.update (w_id w)
                  \<lparr>wd_tags = w_tags w, wd_coords = coords\<rparr> (ways self)\<rparr>
           else self)"

text \<open>\<open>apply_file\<close>: the callbacks run on the objects of the file, in file order.\<close>

fun apply_file :: "extractor \<Rightarrow> osm_object list \<Rightarrow> extractor" where
  "apply_file self [] = self"
| "apply_file self (Node n # objs) = apply_file (node self n) objs"
| "apply_file self (Way w # objs) = apply_file (way self w) objs"
| "apply_file self (Relation r # objs) = apply_file self objs"

section \<open>OSMCreator\<close>

text \<open>
  The writer is the sequence of objects handed to \<open>add_node\<close> and \<open>add_way\<close> so far.
\<close>

record creator =
  writer :: "osm_object list"
  osm_data :: "(int \<times> way_data) list"
  node_id :: int
  way_id :: int
  node_cache :: "coord \<rightharpoonup> int"

definition creator_init :: "(int \<times> way_data) list \<Rightarrow> creator" where
  "creator_init data =
     \<lparr>writer = [], osm_data = data, node_id = 1, way_id = 1, node_cache = Map.empty\<rparr>"

subsection \<open>find_matching_tags\<close>

definition quantize :: "nat \<Rightarrow> coord list \<Rightarrow> coord list" where
  "quantize ndigits cs = map (\<lambda>c. (py_round (fst c) ndigits, py_round (snd c) ndigits)) cs"

text \<open>
  The body of the loop up to the division: \<open>score\<close> is the size of the intersection of
  the two sets of quantized coordinates, \<open>ratio = score / len(ls_coords)\<close> divides it by
  the length of the list. The division raises on a zero divisor. The quotient of two
  counts is a rational, and the float Python computes for it compares with another such
  quotient and with \<open>0.5\<close> as the rationals do.
\<close>

definition ratio :: "coord list \<Rightarrow> way_data \<Rightarrow> error + rat" where
  "ratio ls_coords data =
     (let way_coords = quantize 6 (wd_coords data);
          score = card (set ls_coords \<inter> set way_coords)
      in if length ls_coords = 0 then Inl ZeroDivisionError
         else Inr (of_nat score / of_nat (length ls_coords)))"

text \<open>
  The loop over \<open>self.osm_data.items()\<close>, carrying \<open>(best_match_tags, max_score)\<close>.
\<close>

fun match_loop ::
  "coord list \<Rightarrow> (int \<times> way_data) list \<Rightarrow> tags option \<times> rat \<Rightarrow> error + (tags option \<times> rat)"
where
  "match_loop ls_coords [] acc = Inr acc"
| "match_loop ls_coords ((wid, data) # rest) (best_match_tags, max_score) =
     (case ratio ls_coords data of
        Inl e \<Rightarrow> Inl e
      | Inr r \<Rightarrow>
          if max_score < r
          then match_loop ls_coords rest (Some (wd_tags data), r)
          else match_loop ls_coords rest (best_match_tags, max_score))"

definition find_matching_tags ::
  "(int \<times> way_data) list \<Rightarrow> coord list \<Rightarrow> error + tags option" where
  "find_matching_tags data linestring =
     (let ls_coords = quantize 6 linestring
      in case match_loop ls_coords data (None, 0) of
           Inl e \<Rightarrow> Inl e
         | Inr (best_match_tags, max_score) \<Rightarrow>
             Inr (if 1 / 2 < max_score then best_match_tags else None))"

subsection \<open>add_linestring\<close>

definition fallback_tags :: tags where
  "fallback_tags =
     [(''highway'', ''unclassified''), (''oneway'', ''no''), (''source'', ''custom_geojson'')]"

text \<open>
  The body of the loop over \<open>linestring.coords\<close>: the cache key of one coordinate, the
  node written when the key is not in the cache, and the reference appended to
  \<open>way_node_refs\<close>. The location of the new node is built from \<open>coord_key\<close>.
\<close>

definition coord_key :: "coord \<Rightarrow> coord" where
  "coord_key c = (py_round (fst c) 7, py_round (snd c) 7)"

definition snap_coord :: "creator \<Rightarrow> coord \<Rightarrow> creator \<times> int" where
  "snap_coord self c =
     (let k = coord_key c
      in case node_cache self k of
           Some i \<Rightarrow> (self, i)
         | None \<Rightarrow>
             (let n = \<lparr>n_id = node_id self, n_location = k, n_version = 1, n_visible = True\<rparr>
              in (self\<lparr>writer := writer self @ [Node n],
                       node_cache := (node_cache self)(k \<mapsto> node_id self),
                       node_id := node_id self + 1\<rparr>,
                  node_id self)))"

fun snap_loop :: "creator \<Rightarrow> coord list \<Rightarrow> int list \<Rightarrow> creator \<times> int list" where
  "snap_loop self [] way_node_refs = (self, way_node_refs)"
| "snap_loop self (c # cs) way_node_refs =
     (case snap_coord self c of
        (self', i) \<Rightarrow> snap_loop self' cs (way_node_refs @ [i]))"

text \<open>
  \<open>if not tags\<close> holds for \<open>None\<close> and for an empty dictionary. The call of
  \<open>find_matching_tags\<close> comes first, so when it raises nothing has been written.
\<close>

definition add_linestring :: "creator \<Rightarrow> coord list \<Rightarrow> error + creator" where
  "add_linestring self linestring =
     (case find_matching_tags (osm_data self) linestring of
        Inl e \<Rightarrow> Inl e
      | Inr found \<Rightarrow>
          (let tags = (case found of
                         None \<Rightarrow> fallback_tags
                       | Some t \<Rightarrow> if t = [] then fallback_tags else t)
           in case snap_loop self linestring [] of
                (self', way_node_refs) \<Rightarrow>
                  (let w = \<lparr>w_id = way_id self', w_nodes = way_node_refs, w_tags = tags,
                            w_version = 1, w_visible = True\<rparr>
                   in Inr (self'\<lparr>writer := writer self' @ [Way w],
                                 way_id := way_id self' + 1\<rparr>))))"

text \<open>The loop \<open>for ls in linestrings: creator.add_linestring(ls)\<close>; an exception ends it.\<close>

fun add_linestrings :: "creator \<Rightarrow> coord list list \<Rightarrow> error + creator" where
  "add_linestrings self [] = Inr self"
| "add_linestrings self (ls # rest) =
     (case add_linestring self ls of
        Inl e \<Rightarrow> Inl e
      | Inr self' \<Rightarrow> add_linestrings self' rest)"

section \<open>run_conversion\<close>

text \<open>
  The geometry document after \<open>json.load\<close> and \<open>shape\<close>: a feature is represented by its
  geometry, the only part the script reads. Geometry types other than the two line
  types are one constructor.
\<close>

datatype geometry =
    LineString "coord list"
  | MultiLineString "coord list list"
  | OtherGeometry

datatype gj_data = FeatureCollection "geometry list" | Feature geometry

text \<open>
  The file system maps a path to the content of the file there. A file is classified by
  what its readers make of it: a well-formed geometry document, a map-data file, a
  map-data file whose writer was never closed, or anything else.
\<close>

datatype file_content =
    GeoJson gj_data
  | Pbf "osm_object list"
  | Unfinished
  | OtherFile

type_synonym filesystem = "string \<rightharpoonup> file_content"

fun collect_linestrings :: "geometry list \<Rightarrow> coord list list \<Rightarrow> coord list list" where
  "collect_linestrings [] linestrings = linestrings"
| "collect_linestrings (LineString cs # fs) linestrings =
     collect_linestrings fs (linestrings @ [cs])"
| "collect_linestrings (MultiLineString geoms # fs) linestrings =
     collect_linestrings fs (linestrings @ geoms)"
| "collect_linestrings (OtherGeometry # fs) linestrings =
     collect_linestrings fs linestrings"

definition features_of :: "gj_data \<Rightarrow> geometry list" where
  "features_of gj = (case gj of FeatureCollection fs \<Rightarrow> fs | Feature f \<Rightarrow> [f])"

text \<open>
  The result is the file system left behind and the exception that ended the run, if
  any. The steps are in the order of the source: remove an existing output file, read
  the geometry file, read the map-data file, open the writer, add the lines, close.
\<close>

definition run_conversion ::
  "filesystem \<Rightarrow> string \<Rightarrow> string \<Rightarrow> string \<Rightarrow> filesystem \<times> error option" where
  "run_conversion fs input_pbf geojson_path output_pbf =
     (let fs1 = (if fs output_pbf \<noteq> None then fs(output_pbf := None) else fs)
      in case fs1 geojson_path of
           None \<Rightarrow> (fs1, Some FileNotFoundError)
         | Some (GeoJson gj) \<Rightarrow>
             (let linestrings = collect_linestrings (features_of gj) []
              in case fs1 input_pbf of
                   Some (Pbf objs) \<Rightarrow>
                     (let extractor = apply_file extractor_init objs;
                          creator = creator_init (ways extractor)
                      in case add_linestrings creator linestrings of
                           Inl e \<Rightarrow> (fs1(output_pbf \<mapsto> Unfinished), Some e)
                         | Inr creator' \<Rightarrow>
                             (fs1(output_pbf \<mapsto> Pbf (writer creator')), None))
                 | _ \<Rightarrow> (fs1, Some UnreadableMap))
         | Some _ \<Rightarrow> (fs1, Some MalformedGeometry))"

section \<open>Notions used in the statements\<close>

text \<open>
  The value of \<open>ratio\<close> where the division is defined, the largest ratio over the index
  (the loop starts from \<open>max_score = 0\<close>), and the position of the road that the loop
  keeps: the first one, in enumeration order, whose ratio no other road exceeds.
\<close>

definition ratio_value :: "coord list \<Rightarrow> way_data \<Rightarrow> rat" where
  "ratio_value ls_coords data = (case ratio ls_coords data of Inl e \<Rightarrow> 0 | Inr r \<Rightarrow> r)"

definition best_ratio :: "coord list \<Rightarrow> (int \<times> way_data) list \<Rightarrow> rat" where
  "best_ratio ls_coords data = Max (insert 0 (set (map (\<lambda>x. ratio_value ls_coords (snd x)) data)))"

definition first_best :: "coord list \<Rightarrow> (int \<times> way_data) list \<Rightarrow> way_data \<Rightarrow> bool" where
  "first_best ls data d \<longleftrightarrow>
     (\<exists>pre wid post. data = pre @ (wid, d) # post \<and>
        (\<forall>x \<in> set pre. ratio_value ls (snd x) < ratio_value ls d) \<and>
        (\<forall>x \<in> set post. ratio_value ls (snd x) \<le> ratio_value ls d))"


text \<open>The nodes and the ways among the written objects, in the order written.\<close>

fun out_nodes :: "osm_object list \<Rightarrow> osm_node list" where
  "out_nodes [] = []"
| "out_nodes (Node n # objs) = n # out_nodes objs"
| "out_nodes (Way w # objs) = out_nodes objs"
| "out_nodes (Relation r # objs) = out_nodes objs"

fun out_ways :: "osm_object list \<Rightarrow> osm_way list" where
  "out_ways [] = []"
| "out_ways (Node n # objs) = out_ways objs"
| "out_ways (Way w # objs) = w # out_ways objs"
| "out_ways (Relation r # objs) = out_ways objs"

text \<open>The distinct elements of a list, each at the place of its first occurrence.\<close>

definition first_seen :: "'a list \<Rightarrow> 'a list" where
  "first_seen xs = rev (remdups (rev xs))"

text \<open>The tags \<open>add_linestring\<close> attaches, given what the matcher returned.\<close>

definition tags_or_fallback :: "tags option \<Rightarrow> tags" where
  "tags_or_fallback found =
     (case found of None \<Rightarrow> fallback_tags | Some t \<Rightarrow> if t = [] then fallback_tags else t)"

text \<open>The lines a feature contributes to \<open>linestrings\<close>.\<close>

fun lines_of :: "geometry \<Rightarrow> coord list list" where
  "lines_of (LineString cs) = [cs]"
| "lines_of (MultiLineString geoms) = geoms"
| "lines_of OtherGeometry = []"

text \<open>
  The invariant of the snapping state after the cache keys \<open>seen\<close> have been looked up,
  in that order, starting from a new creator.
\<close>

definition snap_inv :: "creator \<Rightarrow> coord list \<Rightarrow> bool" where
  "snap_inv self seen \<longleftrightarrow>
     map n_location (out_nodes (writer self)) = first_seen seen \<and>
     map n_id (out_nodes (writer self)) = [1 .. int (length (first_seen seen))] \<and>
     node_id self = 1 + int (length (first_seen seen)) \<and>
     dom (node_cache self) = set seen \<and>
     (\<forall>n \<in> set (out_nodes (writer self)). node_cache self (n_location n) = Some (n_id n))"

text \<open>
  A written way belongs to a line: one node reference per coordinate, the one the cache
  holds for its key, and the tags the matcher gives for that line, or the fallback.
\<close>

definition way_of_line ::
  "(int \<times> way_data) list \<Rightarrow> (coord \<rightharpoonup> int) \<Rightarrow> osm_way \<Rightarrow> coord list \<Rightarrow> bool" where
  "way_of_line data cache w linestring \<longleftrightarrow>
     w_nodes w = map (\<lambda>c. the (cache (coord_key c))) linestring \<and>
     (\<exists>found. find_matching_tags data linestring = Inr found \<and>
        w_tags w = tags_or_fallback found) \<and>
     w_version w = 1 \<and> w_visible w"

text \<open>The state after the lines \<open>done\<close> have been added, in that order, to a new creator.\<close>

definition run_inv :: "creator \<Rightarrow> (int \<times> way_data) list \<Rightarrow> coord list list \<Rightarrow> bool" where
  "run_inv self data done \<longleftrightarrow>
     snap_inv self (map coord_key (concat done)) \<and>
     osm_data self = data \<and>
     way_id self = 1 + int (length done) \<and>
     map w_id (out_ways (writer self)) = [1 .. int (length done)] \<and>
     list_all2 (way_of_line data (node_cache self)) (out_ways (writer self)) done"

subsection \<open>Example inputs\<close>

text \<open>
  Two roads that both contain the points of \<open>example_line\<close>, and a line that returns to
  its first point.
\<close>

definition example_index :: "(int \<times> way_data) list" where
  "example_index =
     [(1, \<lparr>wd_tags = [(''highway'', ''secondary'')], wd_coords = [(0, 0), (1, 0), (2, 0)]\<rparr>),
      (2, \<lparr>wd_tags = [(''highway'', ''primary'')], wd_coords = [(2, 0), (1, 0), (0, 0), (3, 0)]\<rparr>)]"

definition example_loop :: "coord list" where
  "example_loop = [(0, 0), (1, 0), (1, 1), (0, 0)]"

definition example_line :: "coord list" where
  "example_line = [(0, 0), (1, 0), (2, 0)]"

text \<open>
  A coordinate with more than seven decimal places (1/1024 = 0.0009765625), and two lines
  whose end points (5 + 2^-30, 5) and (5, 5 + 2^-30) differ as floats and have the same
  cache key (5, 5). \<open>example_run\<close> is the creator after both lines have been added.
\<close>

definition example_raw :: coord where
  "example_raw = (1 / 1024, 0)"

definition example_lines :: "coord list list" where
  "example_lines = [[(0, 0), (1, 0), (5 + 1 / 2 ^ 30, 5)], [(5, 5 + 1 / 2 ^ 30), (0, 0)]]"

definition example_run :: creator where
  "example_run = projr (add_linestrings (creator_init example_index) example_lines)"

text \<open>
  A map-data file with two nodes and three ways: one road with an unknown reference in
  the middle, one road with a single known reference, one way that is not a road. A
  geometry document with a line, a geometry of another type and a two-part line.
\<close>

definition example_pbf :: "osm_object list" where
  "example_pbf =
     [Node \<lparr>n_id = 7, n_location = (0, 0), n_version = 1, n_visible = True\<rparr>,
      Node \<lparr>n_id = 8, n_location = (1, 0), n_version = 1, n_visible = True\<rparr>,
      Way \<lparr>w_id = 3, w_nodes = [7, 9, 8], w_tags = [(''highway'', ''primary'')],
           w_version = 1, w_visible = True\<rparr>,
      Way \<lparr>w_id = 4, w_nodes = [7, 9], w_tags = [(''highway'', ''primary'')],
           w_version = 1, w_visible = True\<rparr>,
      Way \<lparr>w_id = 5, w_nodes = [7, 8], w_tags = [(''building'', ''yes'')],
           w_version = 1, w_visible = True\<rparr>]"

definition example_way :: osm_way where
  "example_way = \<lparr>w_id = 3, w_nodes = [7, 9, 8], w_tags = [(''highway'', ''primary'')],
                   w_version = 1, w_visible = True\<rparr>"

definition example_geojson :: gj_data where
  "example_geojson =
     FeatureCollection
       [LineString [(0, 0), (1, 0)], OtherGeometry,
        MultiLineString [[(1, 0), (2, 2)], [(2, 2), (3, 3), (0, 0)]]]"

definition example_fs :: filesystem where
  "example_fs =
     [''in.pbf'' \<mapsto> Pbf example_pbf,
      ''routes.geojson'' \<mapsto> GeoJson example_geojson,
      ''out.pbf'' \<mapsto> OtherFile]"

section \<open>The matching loop\<close>

lemma ratio_nonempty:
  "ls \<noteq> [] \<Longrightarrow> ratio ls d = Inr (ratio_value ls d)"
  by (simp add: ratio_def ratio_value_def Let_def)

lemma ratio_empty: "ratio [] d = Inl ZeroDivisionError"
  by (simp add: ratio_def Let_def)

lemma ratio_value_nonneg: "0 \<le> ratio_value ls d"
  by (simp add: ratio_def ratio_value_def Let_def)

lemma match_loop_total:
  "ls \<noteq> [] \<Longrightarrow> \<exists>acc'. match_loop ls data acc = Inr acc'"
proof (induction data arbitrary: acc)
  case Nil
  then show ?case by simp
next
  case (Cons x data)
  obtain wid d where x: "x = (wid, d)" by (cases x)
  obtain b m where acc: "acc = (b, m)" by (cases acc)
  show ?case using Cons.IH [OF Cons.prems] Cons.prems
    by (simp add: x acc ratio_nonempty)
qed

lemma match_loop_empty_line:
  "data \<noteq> [] \<Longrightarrow> match_loop [] data acc = Inl ZeroDivisionError"
  by (cases data; cases acc) (auto simp: ratio_empty)


lemma first_best_here:
  assumes "\<forall>x \<in> set data. ratio_value ls (snd x) \<le> ratio_value ls d"
  shows "first_best ls ((wid, d) # data) d"
  unfolding first_best_def
proof (intro exI conjI)
  show "(wid, d) # data = [] @ (wid, d) # data" by simp
  show "\<forall>x \<in> set []. ratio_value ls (snd x) < ratio_value ls d" by simp
  show "\<forall>x \<in> set data. ratio_value ls (snd x) \<le> ratio_value ls d" by (rule assms)
qed

lemma first_best_later:
  assumes "first_best ls data d" and "ratio_value ls (snd x) < ratio_value ls d"
  shows "first_best ls (x # data) d"
proof -
  from assms(1) obtain pre wid post where p: "data = pre @ (wid, d) # post"
      "\<forall>y \<in> set pre. ratio_value ls (snd y) < ratio_value ls d"
      "\<forall>y \<in> set post. ratio_value ls (snd y) \<le> ratio_value ls d"
    unfolding first_best_def by blast
  show ?thesis unfolding first_best_def
  proof (intro exI conjI)
    show "x # data = (x # pre) @ (wid, d) # post" using p(1) by simp
    show "\<forall>y \<in> set (x # pre). ratio_value ls (snd y) < ratio_value ls d"
      using p(2) assms(2) by simp
    show "\<forall>y \<in> set post. ratio_value ls (snd y) \<le> ratio_value ls d" by (rule p(3))
  qed
qed

lemma first_best_max:
  assumes "first_best ls data d" and "x \<in> set data"
  shows "ratio_value ls (snd x) \<le> ratio_value ls d"
  using assms unfolding first_best_def by fastforce

lemma match_loop_result:
  assumes "ls \<noteq> []" and "match_loop ls data (b, m) = Inr (b', m')"
  shows "(b' = b \<and> m' = m \<and> (\<forall>x \<in> set data. ratio_value ls (snd x) \<le> m)) \<or>
         (\<exists>d. b' = Some (wd_tags d) \<and> m' = ratio_value ls d \<and> m < m' \<and> first_best ls data d)"
  using assms
proof (induction data arbitrary: b m)
  case Nil
  then show ?case by simp
next
  case (Cons x data)
  obtain wid d where x: "x = (wid, d)" by (cases x)
  let ?r = "ratio_value ls d"
  show ?case
  proof (cases "m < ?r")
    case True
    with Cons.prems have run: "match_loop ls data (Some (wd_tags d), ?r) = Inr (b', m')"
      by (simp add: x ratio_nonempty)
    from Cons.IH [OF Cons.prems(1) run] show ?thesis
    proof
      assume a: "b' = Some (wd_tags d) \<and> m' = ?r \<and> (\<forall>x \<in> set data. ratio_value ls (snd x) \<le> ?r)"
      then have "first_best ls (x # data) d" unfolding x by (intro first_best_here) simp
      with a True show ?thesis by blast
    next
      assume "\<exists>d'. b' = Some (wd_tags d') \<and> m' = ratio_value ls d' \<and> ?r < m' \<and> first_best ls data d'"
      then obtain d' where p: "b' = Some (wd_tags d')" "m' = ratio_value ls d'" "?r < m'"
        "first_best ls data d'" by blast
      have "first_best ls (x # data) d'" using p(2,3,4) by (intro first_best_later) (simp_all add: x)
      moreover have "m < m'" using True p(3) by simp
      ultimately show ?thesis using p(1,2) by blast
    qed
  next
    case False
    with Cons.prems have run: "match_loop ls data (b, m) = Inr (b', m')"
      by (simp add: x ratio_nonempty)
    from Cons.IH [OF Cons.prems(1) run] show ?thesis
    proof
      assume "b' = b \<and> m' = m \<and> (\<forall>x \<in> set data. ratio_value ls (snd x) \<le> m)"
      with False show ?thesis by (auto simp: x)
    next
      assume "\<exists>d'. b' = Some (wd_tags d') \<and> m' = ratio_value ls d' \<and> m < m' \<and> first_best ls data d'"
      then obtain d' where p: "b' = Some (wd_tags d')" "m' = ratio_value ls d'" "m < m'"
        "first_best ls data d'" by blast
      have "ratio_value ls (snd x) < ratio_value ls d'" using False p(2,3) by (simp add: x)
      then have "first_best ls (x # data) d'" using p(4) by (intro first_best_later)
      then show ?thesis using p(1,2,3) by blast
    qed
  qed
qed

lemma best_ratio_unchanged:
  assumes "\<forall>x \<in> set data. ratio_value ls (snd x) \<le> 0"
  shows "best_ratio ls data = 0"
proof -
  have "\<forall>a \<in> insert 0 (set (map (\<lambda>x. ratio_value ls (snd x)) data)). a \<le> 0"
    using assms by auto
  then have "best_ratio ls data \<le> 0" unfolding best_ratio_def by (subst Max_le_iff) auto
  moreover have "0 \<le> best_ratio ls data" unfolding best_ratio_def by (intro Max_ge) auto
  ultimately show ?thesis by simp
qed

lemma best_ratio_first_best:
  assumes "first_best ls data d"
  shows "best_ratio ls data = ratio_value ls d"
proof -
  have mem: "(wid, d) \<in> set data \<Longrightarrow> ratio_value ls d \<in> insert 0 (set (map (\<lambda>x. ratio_value ls (snd x)) data))" for wid
    by force
  obtain wid where "(wid, d) \<in> set data" using assms unfolding first_best_def by fastforce
  then have in_set: "ratio_value ls d \<in> insert 0 (set (map (\<lambda>x. ratio_value ls (snd x)) data))"
    by (rule mem)
  have "\<forall>a \<in> insert 0 (set (map (\<lambda>x. ratio_value ls (snd x)) data)). a \<le> ratio_value ls d"
    using first_best_max [OF assms] ratio_value_nonneg [of ls d] by auto
  then show ?thesis unfolding best_ratio_def using in_set
    by (intro Max_eqI) auto
qed

lemma find_matching_tags_result:
  assumes "linestring \<noteq> []" and "find_matching_tags data linestring = Inr found"
  shows "(found = None \<and> best_ratio (quantize 6 linestring) data \<le> 1 / 2) \<or>
         (\<exists>d. found = Some (wd_tags d) \<and> 1 / 2 < ratio_value (quantize 6 linestring) d \<and>
              best_ratio (quantize 6 linestring) data = ratio_value (quantize 6 linestring) d \<and>
              first_best (quantize 6 linestring) data d)"
proof -
  let ?ls = "quantize 6 linestring"
  have ne: "?ls \<noteq> []" using assms(1) by (simp add: quantize_def)
  obtain b m where run: "match_loop ?ls data (None, 0) = Inr (b, m)"
    using match_loop_total [OF ne, of data "(None, 0)"] by fastforce
  have found: "found = (if 1 / 2 < m then b else None)"
    using assms(2) run by (simp add: find_matching_tags_def Let_def)
  from match_loop_result [OF ne run] show ?thesis
  proof
    assume "b = None \<and> m = 0 \<and> (\<forall>x \<in> set data. ratio_value ?ls (snd x) \<le> 0)"
    then show ?thesis using found best_ratio_unchanged [of data ?ls] by simp
  next
    assume "\<exists>d. b = Some (wd_tags d) \<and> m = ratio_value ?ls d \<and> 0 < m \<and> first_best ?ls data d"
    then obtain d where p: "b = Some (wd_tags d)" "m = ratio_value ?ls d" "first_best ?ls data d"
      by blast
    show ?thesis using found p best_ratio_first_best [OF p(3)] by (cases "1 / 2 < m") auto
  qed
qed

section \<open>Node snapping and the emitted ways\<close>


lemma out_nodes_append [simp]: "out_nodes (xs @ ys) = out_nodes xs @ out_nodes ys"
  by (induction xs rule: out_nodes.induct) simp_all

lemma out_ways_append [simp]: "out_ways (xs @ ys) = out_ways xs @ out_ways ys"
  by (induction xs rule: out_ways.induct) simp_all

lemma first_seen_Nil [simp]: "first_seen [] = []"
  by (simp add: first_seen_def)

lemma first_seen_snoc:
  "first_seen (xs @ [k]) = (if k \<in> set xs then first_seen xs else first_seen xs @ [k])"
  by (simp add: first_seen_def)

lemma set_first_seen [simp]: "set (first_seen xs) = set xs"
  by (simp add: first_seen_def)

lemma distinct_first_seen [simp]: "distinct (first_seen xs)"
  by (simp add: first_seen_def)

lemma length_first_seen: "length (first_seen xs) = card (set xs)"
  unfolding first_seen_def by (simp add: length_remdups_card_conv)

lemma snap_inv_init: "snap_inv (creator_init data) []"
  by (simp add: snap_inv_def creator_init_def)

lemma snap_coord_old:
  "node_cache self (coord_key c) = Some i \<Longrightarrow> snap_coord self c = (self, i)"
  by (simp add: snap_coord_def)

lemma snap_coord_new:
  "node_cache self (coord_key c) = None \<Longrightarrow>
   snap_coord self c =
     (self\<lparr>writer := writer self @ [Node \<lparr>n_id = node_id self, n_location = coord_key c,
                                             n_version = 1, n_visible = True\<rparr>],
           node_cache := (node_cache self)(coord_key c \<mapsto> node_id self),
           node_id := node_id self + 1\<rparr>,
      node_id self)"
  by (simp add: snap_coord_def Let_def)

lemma snap_coord_inv:
  assumes "snap_inv self seen" and "snap_coord self c = (self', i)"
  shows "snap_inv self' (seen @ [coord_key c])"
proof (cases "node_cache self (coord_key c)")
  case (Some j)
  then have "self' = self" using assms(2) by (simp add: snap_coord_def)
  moreover have "coord_key c \<in> set seen" using Some assms(1) by (auto simp: snap_inv_def)
  ultimately show ?thesis using assms(1) by (simp add: snap_inv_def first_seen_snoc insert_absorb)
next
  case None
  then have new: "coord_key c \<notin> set seen" using assms(1) by (auto simp: snap_inv_def)
  have s': "self' = self\<lparr>writer := writer self @ [Node \<lparr>n_id = node_id self, n_location = coord_key c, n_version = 1, n_visible = True\<rparr>],
                       node_cache := (node_cache self)(coord_key c \<mapsto> node_id self),
                       node_id := node_id self + 1\<rparr>"
    using snap_coord_new [OF None] assms(2) by simp
  have locs: "\<forall>n \<in> set (out_nodes (writer self)). n_location n \<noteq> coord_key c"
    using assms(1) None by (auto simp: snap_inv_def)
  show ?thesis using assms(1) new locs unfolding snap_inv_def s'
    by (simp add: first_seen_snoc upto_rec2)
qed

lemma snap_coord_frame:
  assumes "snap_coord self c = (self', i)"
  shows "osm_data self' = osm_data self" and "way_id self' = way_id self"
    and "out_ways (writer self') = out_ways (writer self)"
    and "node_cache self \<subseteq>\<^sub>m node_cache self'"
    and "node_cache self' (coord_key c) = Some i"
proof -
  show "osm_data self' = osm_data self" using assms
    by (cases "node_cache self (coord_key c)") (auto simp: snap_coord_new snap_coord_old)
  show "way_id self' = way_id self" using assms
    by (cases "node_cache self (coord_key c)") (auto simp: snap_coord_new snap_coord_old)
  show "out_ways (writer self') = out_ways (writer self)" using assms
    by (cases "node_cache self (coord_key c)") (auto simp: snap_coord_new snap_coord_old)
  show "node_cache self \<subseteq>\<^sub>m node_cache self'" using assms
    by (cases "node_cache self (coord_key c)") (auto simp: snap_coord_new snap_coord_old map_le_def)
  show "node_cache self' (coord_key c) = Some i" using assms
    by (cases "node_cache self (coord_key c)") (auto simp: snap_coord_new snap_coord_old)
qed

lemma snap_loop_inv:
  assumes "snap_inv self seen" and "snap_loop self cs refs = (self', refs')"
  shows "snap_inv self' (seen @ map coord_key cs)"
  using assms
proof (induction cs arbitrary: self seen refs)
  case Nil
  then show ?case by simp
next
  case (Cons c cs)
  obtain self1 i where step: "snap_coord self c = (self1, i)" by (cases "snap_coord self c")
  with Cons.prems(2) have rest: "snap_loop self1 cs (refs @ [i]) = (self', refs')" by simp
  have "snap_inv self1 (seen @ [coord_key c])" by (rule snap_coord_inv [OF Cons.prems(1) step])
  from Cons.IH [OF this rest] show ?case by simp
qed

lemma snap_loop_frame:
  assumes "snap_loop self cs refs = (self', refs')"
  shows "osm_data self' = osm_data self \<and> way_id self' = way_id self \<and>
         out_ways (writer self') = out_ways (writer self) \<and>
         node_cache self \<subseteq>\<^sub>m node_cache self'"
  using assms
proof (induction cs arbitrary: self refs)
  case Nil
  then show ?case by simp
next
  case (Cons c cs)
  obtain self1 i where step: "snap_coord self c = (self1, i)" by (cases "snap_coord self c")
  with Cons.prems have rest: "snap_loop self1 cs (refs @ [i]) = (self', refs')" by simp
  from Cons.IH [OF rest] snap_coord_frame(1,2,3,4) [OF step] show ?case
    by (auto intro: map_le_trans)
qed

lemma snap_loop_refs:
  assumes "snap_loop self cs refs = (self', refs')"
  shows "refs' = refs @ map (\<lambda>c. the (node_cache self' (coord_key c))) cs"
  using assms
proof (induction cs arbitrary: self refs)
  case Nil
  then show ?case by simp
next
  case (Cons c cs)
  obtain self1 i where step: "snap_coord self c = (self1, i)" by (cases "snap_coord self c")
  with Cons.prems have rest: "snap_loop self1 cs (refs @ [i]) = (self', refs')" by simp
  have "node_cache self1 \<subseteq>\<^sub>m node_cache self'" using snap_loop_frame [OF rest] by simp
  moreover have "node_cache self1 (coord_key c) = Some i" by (rule snap_coord_frame(5) [OF step])
  ultimately have "node_cache self' (coord_key c) = Some i"
    by (metis domI map_le_def)
  with Cons.IH [OF rest] show ?case by simp
qed

lemma add_linestring_result:
  assumes "find_matching_tags (osm_data self) linestring = Inr found"
    and "snap_loop self linestring [] = (self1, refs)"
  shows "add_linestring self linestring =
           Inr (self1\<lparr>writer := writer self1 @
                        [Way \<lparr>w_id = way_id self, w_nodes = refs, w_tags = tags_or_fallback found,
                              w_version = 1, w_visible = True\<rparr>],
                      way_id := way_id self + 1\<rparr>)"
  using assms snap_loop_frame [OF assms(2)]
  by (simp add: add_linestring_def tags_or_fallback_def Let_def)

lemma add_linestring_error:
  "find_matching_tags (osm_data self) linestring = Inl e \<Longrightarrow> add_linestring self linestring = Inl e"
  by (simp add: add_linestring_def)

lemma run_inv_init: "run_inv (creator_init data) data []"
  using snap_inv_init [of data] by (simp add: run_inv_def) (simp add: creator_init_def)

lemma way_of_line_mono:
  assumes "way_of_line data cache w l" and "cache \<subseteq>\<^sub>m cache'"
    and "coord_key ` set l \<subseteq> dom cache"
  shows "way_of_line data cache' w l"
proof -
  have "the (cache' (coord_key c)) = the (cache (coord_key c))" if "c \<in> set l" for c
  proof -
    from that assms(3) have "coord_key c \<in> dom cache" by auto
    with assms(2) show ?thesis by (simp add: map_le_def)
  qed
  then have "map (\<lambda>c. the (cache' (coord_key c))) l = map (\<lambda>c. the (cache (coord_key c))) l"
    by simp
  with assms(1) show ?thesis by (simp add: way_of_line_def)
qed

lemma snap_inv_way_written:
  "snap_inv (self\<lparr>writer := writer self @ [Way w], way_id := k\<rparr>) seen = snap_inv self seen"
  by (simp add: snap_inv_def)

lemma add_linestring_inv:
  assumes inv: "run_inv self data done" and step: "add_linestring self l = Inr self'"
  shows "run_inv self' data (done @ [l])"
proof -
  obtain found where found: "find_matching_tags (osm_data self) l = Inr found"
    using step by (cases "find_matching_tags (osm_data self) l") (simp_all add: add_linestring_error)
  obtain self1 refs where loop: "snap_loop self l [] = (self1, refs)"
    by (cases "snap_loop self l []")
  let ?w = "\<lparr>w_id = way_id self, w_nodes = refs, w_tags = tags_or_fallback found,
            w_version = 1, w_visible = True\<rparr>"
  have self': "self' = self1\<lparr>writer := writer self1 @ [Way ?w], way_id := way_id self + 1\<rparr>"
    using add_linestring_result [OF found loop] step by simp
  have data: "osm_data self = data" using inv by (simp add: run_inv_def)
  have frame: "osm_data self1 = osm_data self" "way_id self1 = way_id self"
    "out_ways (writer self1) = out_ways (writer self)" "node_cache self \<subseteq>\<^sub>m node_cache self1"
    using snap_loop_frame [OF loop] by simp_all
  have "snap_inv self (map coord_key (concat done))" using inv by (simp add: run_inv_def)
  from snap_loop_inv [OF this loop]
  have s1: "snap_inv self' (map coord_key (concat (done @ [l])))"
    unfolding self' by (simp add: snap_inv_way_written)
  have dom: "dom (node_cache self) = set (map coord_key (concat done))"
    using inv by (simp add: run_inv_def snap_inv_def)
  have old: "list_all2 (way_of_line data (node_cache self1)) (out_ways (writer self)) done"
  proof (rule list.rel_mono_strong)
    show "list_all2 (way_of_line data (node_cache self)) (out_ways (writer self)) done"
      using inv by (simp add: run_inv_def)
  next
    fix w l'
    assume mem: "l' \<in> set done" and w: "way_of_line data (node_cache self) w l'"
    from mem have "coord_key ` set l' \<subseteq> dom (node_cache self)"
      unfolding dom by auto
    then show "way_of_line data (node_cache self1) w l'"
      by (rule way_of_line_mono [OF w frame(4)])
  qed
  have new: "way_of_line data (node_cache self1) ?w l"
    using snap_loop_refs [OF loop] found data by (simp add: way_of_line_def)
  have ways: "list_all2 (way_of_line data (node_cache self')) (out_ways (writer self')) (done @ [l])"
    unfolding self' using old new frame(3) by (simp add: list_all2_appendI)
  have ids: "map w_id (out_ways (writer self')) = [1 .. int (length (done @ [l]))]"
    using inv unfolding self' by (simp add: run_inv_def frame(3) upto_rec2)
  have wid: "way_id self' = 1 + int (length (done @ [l]))"
    using inv unfolding self' by (simp add: run_inv_def)
  have "osm_data self' = data" unfolding self' using frame(1) data by simp
  with s1 ways ids wid show ?thesis unfolding run_inv_def by simp
qed

lemma add_linestrings_inv:
  assumes "run_inv self data done" and "add_linestrings self rest = Inr self'"
  shows "run_inv self' data (done @ rest)"
  using assms
proof (induction rest arbitrary: self "done")
  case Nil
  then show ?case by simp
next
  case (Cons l rest)
  obtain self1 where step: "add_linestring self l = Inr self1"
    using Cons.prems(2) by (cases "add_linestring self l") simp_all
  with Cons.prems(2) have run: "add_linestrings self1 rest = Inr self'" by simp
  from Cons.IH [OF add_linestring_inv [OF Cons.prems(1) step] run] show ?case by simp
qed

lemma add_linestring_total:
  assumes "l \<noteq> [] \<or> osm_data self = []"
  shows "\<exists>self'. add_linestring self l = Inr self'"
proof -
  have "\<exists>found. find_matching_tags (osm_data self) l = Inr found"
  proof (cases "l = []")
    case True
    with assms show ?thesis by (simp add: find_matching_tags_def quantize_def)
  next
    case False
    then have "quantize 6 l \<noteq> []" by (simp add: quantize_def)
    from match_loop_total [OF this, of "osm_data self" "(None, 0)"]
    show ?thesis by (auto simp: find_matching_tags_def)
  qed
  then obtain found where "find_matching_tags (osm_data self) l = Inr found" ..
  then show ?thesis using add_linestring_result [of self l found]
    by (cases "snap_loop self l []") simp
qed

lemma add_linestrings_total:
  assumes "\<forall>l \<in> set rest. l \<noteq> []"
  shows "\<exists>self'. add_linestrings self rest = Inr self'"
  using assms
proof (induction rest arbitrary: self)
  case Nil
  then show ?case by simp
next
  case (Cons l rest)
  then obtain self1 where "add_linestring self l = Inr self1"
    using add_linestring_total [of l self] by auto
  with Cons show ?case by simp
qed

lemma run_inv_final:
  assumes "add_linestrings (creator_init data) lines = Inr self"
  shows "run_inv self data lines"
  using add_linestrings_inv [OF run_inv_init assms] by simp

lemma zip_map_both: "zip (map f xs) (map g xs) = map (\<lambda>x. (f x, g x)) xs"
  by (induction xs) simp_all

lemma example_run_ok:
  "add_linestrings (creator_init example_index) example_lines = Inr example_run"
proof -
  have "\<forall>l \<in> set example_lines. l \<noteq> []" by (simp add: example_lines_def)
  from add_linestrings_total [OF this, of "creator_init example_index"]
  show ?thesis unfolding example_run_def by auto
qed

lemma run_way_ref:
  assumes "run_inv self data lines" and "a < length lines" and "i < length (lines ! a)"
  shows "w_nodes (out_ways (writer self) ! a) ! i = the (node_cache self (coord_key (lines ! a ! i)))"
proof -
  have all: "list_all2 (way_of_line data (node_cache self)) (out_ways (writer self)) lines"
    using assms(1) by (simp add: run_inv_def)
  from list_all2_nthD2 [OF all assms(2)]
  have "w_nodes (out_ways (writer self) ! a) =
          map (\<lambda>c. the (node_cache self (coord_key c))) (lines ! a)"
    by (simp add: way_of_line_def)
  with assms(3) show ?thesis by simp
qed

lemma run_key_node:
  assumes "run_inv self data lines" and "c \<in> set (concat lines)"
  shows "\<exists>n \<in> set (out_nodes (writer self)).
           n_location n = coord_key c \<and> n_id n = the (node_cache self (coord_key c))"
proof -
  have inv: "snap_inv self (map coord_key (concat lines))"
    using assms(1) by (simp add: run_inv_def)
  have "coord_key c \<in> set (first_seen (map coord_key (concat lines)))" using assms(2) by auto
  also have "first_seen (map coord_key (concat lines)) = map n_location (out_nodes (writer self))"
    using inv by (simp add: snap_inv_def)
  finally obtain n where n: "n \<in> set (out_nodes (writer self))" "n_location n = coord_key c"
    by auto
  from inv n(1) have "node_cache self (n_location n) = Some (n_id n)"
    by (simp add: snap_inv_def)
  with n show ?thesis by auto
qed

section \<open>The extractor and the pipeline\<close>

lemma resolve_refs_filter:
  "resolve_refs ns refs coords =
     coords @ map (\<lambda>r. the (ns r)) (filter (\<lambda>r. ns r \<noteq> None) refs)"
  by (induction refs arbitrary: coords) (auto split: option.splits)

lemma apply_file_append:
  "apply_file self (xs @ ys) = apply_file (apply_file self xs) ys"
  by (induction self xs rule: apply_file.induct) simp_all

lemma way_nodes [simp]: "nodes (way self w) = nodes self"
  by (simp add: way_def Let_def)

lemma dom_nodes_apply_file:
  "dom (nodes (apply_file self objs)) = dom (nodes self) \<union> n_id ` set (out_nodes objs)"
  by (induction self objs rule: apply_file.induct) (auto simp: node_def)

lemma collect_linestrings_concat:
  "collect_linestrings fs linestrings = linestrings @ concat (map lines_of fs)"
  by (induction fs linestrings rule: collect_linestrings.induct) simp_all

lemma run_conversion_missing_geometry:
  assumes "(fs(output_pbf := None)) geojson_path = None"
  shows "run_conversion fs input_pbf geojson_path output_pbf =
           (fs(output_pbf := None), Some FileNotFoundError)"
proof -
  have "(if fs output_pbf \<noteq> None then fs(output_pbf := None) else fs) = fs(output_pbf := None)"
    by auto
  then show ?thesis using assms by (simp add: run_conversion_def)
qed

lemma run_conversion_completes:
  assumes gj: "fs geojson_path = Some (GeoJson gj)" and pbf: "fs input_pbf = Some (Pbf objs)"
    and ne1: "geojson_path \<noteq> output_pbf" and ne2: "input_pbf \<noteq> output_pbf"
  shows "run_conversion fs input_pbf geojson_path output_pbf =
           (case add_linestrings (creator_init (ways (apply_file extractor_init objs)))
                   (concat (map lines_of (features_of gj))) of
              Inl e \<Rightarrow> (fs(output_pbf \<mapsto> Unfinished), Some e)
            | Inr creator' \<Rightarrow> (fs(output_pbf \<mapsto> Pbf (writer creator')), None))"
proof -
  have fs1: "(if fs output_pbf \<noteq> None then fs(output_pbf := None) else fs) = fs(output_pbf := None)"
    by auto
  show ?thesis unfolding run_conversion_def fs1 Let_def
    using gj pbf ne1 ne2 by (simp add: collect_linestrings_concat split: sum.splits)
qed

section \<open>The match ratio\<close>

text \<open>
  C1, as the code has it: for a line with at least one coordinate, the ratio computed for
  a source road is the number of distinct quantized coordinates that the line and the
  road share, divided by the number of coordinates of the line, repeated ones counted
  each time. It is the quotient by the number of distinct coordinates when the quantized
  coordinates of the line are pairwise distinct.
\<close>

theorem ratio_overlap_over_length:
  assumes "linestring \<noteq> []"
  shows "ratio (quantize 6 linestring) data =
           Inr (of_nat (card (set (quantize 6 linestring) \<inter> set (quantize 6 (wd_coords data))))
                / of_nat (length linestring)) \<and>
         (distinct (quantize 6 linestring) \<longrightarrow>
            ratio (quantize 6 linestring) data =
              Inr (of_nat (card (set (quantize 6 linestring) \<inter> set (quantize 6 (wd_coords data))))
                   / of_nat (card (set (quantize 6 linestring)))))"
proof -
  have len: "length (quantize 6 linestring) = length linestring" by (simp add: quantize_def)
  have first: "ratio (quantize 6 linestring) data =
           Inr (of_nat (card (set (quantize 6 linestring) \<inter> set (quantize 6 (wd_coords data))))
                / of_nat (length linestring))"
    using assms by (simp add: ratio_def Let_def len)
  moreover have "card (set (quantize 6 linestring)) = length linestring"
    if "distinct (quantize 6 linestring)"
    using distinct_card [OF that] len by simp
  ultimately show ?thesis by simp
qed

theorem ratio_overlap_over_length_witness:
  "example_line \<noteq> [] \<and> distinct (quantize 6 example_line) \<and>
   ratio (quantize 6 example_line) (snd (hd example_index)) = Inr 1 \<and>
   ratio (quantize 6 example_line) (snd (hd example_index)) =
     Inr (of_nat (card (set (quantize 6 example_line) \<inter>
                        set (quantize 6 (wd_coords (snd (hd example_index))))))
          / of_nat (card (set (quantize 6 example_line))))"
proof -
  have h: "example_line \<noteq> []" by (simp add: example_line_def)
  have d: "distinct (quantize 6 example_line)" by code_simp
  have v: "ratio (quantize 6 example_line) (snd (hd example_index)) = Inr 1" by code_simp
  from ratio_overlap_over_length [OF h, of "snd (hd example_index)"] h d v
  show ?thesis by blast
qed

text \<open>
  C1 as stated fails on a line with a repeated coordinate: \<open>example_loop\<close> has four
  coordinates, three of them distinct, and shares two with the first example road. The
  code computes 2/4, the quotient by the number of distinct coordinates is 2/3.
\<close>

theorem ratio_distinct_counterexample:
  "ratio (quantize 6 example_loop) (snd (hd example_index)) = Inr (1 / 2) \<and>
   of_nat (card (set (quantize 6 example_loop) \<inter>
                 set (quantize 6 (wd_coords (snd (hd example_index))))))
     / of_nat (card (set (quantize 6 example_loop))) = (2 / 3 :: rat)"
  by code_simp

text \<open>
  C9: for a line with at least one coordinate \<open>find_matching_tags\<close> returns, whatever
  the index; for a line without coordinates and an index that is not empty it raises
  the division-by-zero error.
\<close>

theorem find_matching_tags_total:
  "(linestring \<noteq> [] \<longrightarrow> (\<exists>found. find_matching_tags data linestring = Inr found)) \<and>
   (data \<noteq> [] \<longrightarrow> find_matching_tags data [] = Inl ZeroDivisionError)"
proof (intro conjI impI)
  assume "linestring \<noteq> []"
  then have "quantize 6 linestring \<noteq> []" by (simp add: quantize_def)
  from match_loop_total [OF this, of data "(None, 0)"]
  show "\<exists>found. find_matching_tags data linestring = Inr found"
    by (auto simp: find_matching_tags_def)
next
  assume "data \<noteq> []"
  then show "find_matching_tags data [] = Inl ZeroDivisionError"
    by (simp add: find_matching_tags_def quantize_def match_loop_empty_line)
qed

theorem find_matching_tags_total_witness:
  "example_line \<noteq> [] \<and> (\<exists>found. find_matching_tags example_index example_line = Inr found) \<and>
   example_index \<noteq> [] \<and> find_matching_tags example_index [] = Inl ZeroDivisionError"
proof -
  have h1: "example_line \<noteq> []" by (simp add: example_line_def)
  have h2: "example_index \<noteq> []" by (simp add: example_index_def)
  from find_matching_tags_total [of example_line example_index] h1 h2
  show ?thesis by simp
qed

section \<open>Threshold, fallback and tie-break\<close>

text \<open>
  C3: the matcher returns tags only if the best ratio over the index is strictly greater
  than 1/2, so a best ratio of exactly 1/2 gives no match; whenever it returns no match,
  and in particular when the index is empty, the way that \<open>add_linestring\<close> writes has
  exactly the tags highway = unclassified, oneway = no, source = custom_geojson.
\<close>

theorem threshold_and_fallback:
  assumes "find_matching_tags (osm_data self) linestring = Inr found"
  shows "(found \<noteq> None \<longleftrightarrow> 1 / 2 < best_ratio (quantize 6 linestring) (osm_data self)) \<and>
         (found = None \<longrightarrow>
            (\<exists>self' w. add_linestring self linestring = Inr self' \<and>
               out_ways (writer self') = out_ways (writer self) @ [w] \<and>
               w_tags w =
                 [(''highway'', ''unclassified''), (''oneway'', ''no''),
                  (''source'', ''custom_geojson'')])) \<and>
         (osm_data self = [] \<longrightarrow> found = None)"
proof (intro conjI impI)
  show "found \<noteq> None \<longleftrightarrow> 1 / 2 < best_ratio (quantize 6 linestring) (osm_data self)"
  proof (cases "linestring = []")
    case True
    have "osm_data self = []"
    proof (rule ccontr)
      assume "osm_data self \<noteq> []"
      then have "find_matching_tags (osm_data self) [] = Inl ZeroDivisionError"
        by (simp add: find_matching_tags_def quantize_def match_loop_empty_line)
      with assms True show False by simp
    qed
    with assms True show ?thesis
      by (auto simp: find_matching_tags_def quantize_def best_ratio_def)
  next
    case False
    from find_matching_tags_result [OF False assms] show ?thesis by auto
  qed
next
  assume none: "found = None"
  obtain self1 refs where loop: "snap_loop self linestring [] = (self1, refs)"
    by (cases "snap_loop self linestring []")
  from add_linestring_result [OF assms loop] snap_loop_frame [OF loop] none
  show "\<exists>self' w. add_linestring self linestring = Inr self' \<and>
          out_ways (writer self') = out_ways (writer self) @ [w] \<and>
          w_tags w =
            [(''highway'', ''unclassified''), (''oneway'', ''no''),
             (''source'', ''custom_geojson'')]"
    by (simp add: tags_or_fallback_def fallback_tags_def)
next
  assume "osm_data self = []"
  with assms show "found = None" by (auto simp: find_matching_tags_def)
qed

theorem threshold_and_fallback_witness:
  "find_matching_tags (osm_data (creator_init example_index)) example_loop = Inr None \<and>
   best_ratio (quantize 6 example_loop) (osm_data (creator_init example_index)) = 1 / 2 \<and>
   (\<exists>self' w. add_linestring (creator_init example_index) example_loop = Inr self' \<and>
      out_ways (writer self') = out_ways (writer (creator_init example_index)) @ [w] \<and>
      w_tags w =
        [(''highway'', ''unclassified''), (''oneway'', ''no''),
         (''source'', ''custom_geojson'')]) \<and>
   map w_tags
     (out_ways (writer (projr (add_linestring (creator_init example_index) example_loop)))) =
     [[(''highway'', ''unclassified''), (''oneway'', ''no''), (''source'', ''custom_geojson'')]]"
proof -
  have h: "find_matching_tags (osm_data (creator_init example_index)) example_loop = Inr None"
    by code_simp
  have b: "best_ratio (quantize 6 example_loop) (osm_data (creator_init example_index)) = 1 / 2"
    by code_simp
  have v: "map w_tags
     (out_ways (writer (projr (add_linestring (creator_init example_index) example_loop)))) =
     [[(''highway'', ''unclassified''), (''oneway'', ''no''), (''source'', ''custom_geojson'')]]"
    by code_simp
  from threshold_and_fallback [OF h] h b v show ?thesis by blast
qed

text \<open>
  C8: the loop keeps the road with the strictly highest ratio seen so far. Its result is
  the first road, in enumeration order, whose ratio is the maximum: every road before it
  has a strictly smaller ratio, every road after it a ratio that is not greater. Nothing
  is kept when every ratio is zero.
\<close>

theorem first_highest_ratio_wins:
  assumes "linestring \<noteq> []"
    and "match_loop (quantize 6 linestring) data (None, 0) = Inr (best_match_tags, max_score)"
  shows "find_matching_tags data linestring =
           Inr (if 1 / 2 < max_score then best_match_tags else None) \<and>
         ((best_match_tags = None \<and> max_score = 0 \<and>
           (\<forall>x \<in> set data. ratio_value (quantize 6 linestring) (snd x) = 0)) \<or>
          (\<exists>pre wid d post.
             data = pre @ (wid, d) # post \<and>
             best_match_tags = Some (wd_tags d) \<and>
             max_score = ratio_value (quantize 6 linestring) d \<and> 0 < max_score \<and>
             (\<forall>x \<in> set pre. ratio_value (quantize 6 linestring) (snd x) < max_score) \<and>
             (\<forall>x \<in> set post. ratio_value (quantize 6 linestring) (snd x) \<le> max_score)))"
proof
  show "find_matching_tags data linestring =
          Inr (if 1 / 2 < max_score then best_match_tags else None)"
    using assms(2) by (simp add: find_matching_tags_def)
next
  let ?ls = "quantize 6 linestring"
  have ne: "?ls \<noteq> []" using assms(1) by (simp add: quantize_def)
  from match_loop_result [OF ne assms(2)]
  show "(best_match_tags = None \<and> max_score = 0 \<and>
           (\<forall>x \<in> set data. ratio_value ?ls (snd x) = 0)) \<or>
          (\<exists>pre wid d post.
             data = pre @ (wid, d) # post \<and>
             best_match_tags = Some (wd_tags d) \<and>
             max_score = ratio_value ?ls d \<and> 0 < max_score \<and>
             (\<forall>x \<in> set pre. ratio_value ?ls (snd x) < max_score) \<and>
             (\<forall>x \<in> set post. ratio_value ?ls (snd x) \<le> max_score))"
  proof
    assume a: "best_match_tags = None \<and> max_score = 0 \<and>
      (\<forall>x \<in> set data. ratio_value ?ls (snd x) \<le> 0)"
    have "ratio_value ?ls (snd x) = 0" if "x \<in> set data" for x
      using a that ratio_value_nonneg [of ?ls "snd x"] by (simp add: order_antisym)
    with a show ?thesis by simp
  next
    assume "\<exists>d. best_match_tags = Some (wd_tags d) \<and> max_score = ratio_value ?ls d \<and>
      0 < max_score \<and> first_best ?ls data d"
    then obtain d where d: "best_match_tags = Some (wd_tags d)" "max_score = ratio_value ?ls d"
      "0 < max_score" "first_best ?ls data d" by blast
    from d(4) obtain pre wid post where p: "data = pre @ (wid, d) # post"
      "\<forall>x \<in> set pre. ratio_value ?ls (snd x) < ratio_value ?ls d"
      "\<forall>x \<in> set post. ratio_value ?ls (snd x) \<le> ratio_value ?ls d"
      unfolding first_best_def by blast
    have "\<exists>pre wid d post.
             data = pre @ (wid, d) # post \<and>
             best_match_tags = Some (wd_tags d) \<and>
             max_score = ratio_value ?ls d \<and> 0 < max_score \<and>
             (\<forall>x \<in> set pre. ratio_value ?ls (snd x) < max_score) \<and>
             (\<forall>x \<in> set post. ratio_value ?ls (snd x) \<le> max_score)"
    proof (intro exI conjI)
      show "data = pre @ (wid, d) # post" by (rule p(1))
      show "best_match_tags = Some (wd_tags d)" by (rule d(1))
      show "max_score = ratio_value ?ls d" by (rule d(2))
      show "0 < max_score" by (rule d(3))
      show "\<forall>x \<in> set pre. ratio_value ?ls (snd x) < max_score" using p(2) d(2) by simp
      show "\<forall>x \<in> set post. ratio_value ?ls (snd x) \<le> max_score" using p(3) d(2) by simp
    qed
    then show ?thesis ..
  qed
qed

theorem first_highest_ratio_wins_witness:
  "example_line \<noteq> [] \<and>
   match_loop (quantize 6 example_line) example_index (None, 0) =
     Inr (Some [(''highway'', ''secondary'')], 1) \<and>
   find_matching_tags example_index example_line = Inr (Some [(''highway'', ''secondary'')]) \<and>
   (\<exists>pre wid d post.
      example_index = pre @ (wid, d) # post \<and>
      Some [(''highway'', ''secondary'')] = Some (wd_tags d) \<and>
      1 = ratio_value (quantize 6 example_line) d \<and>
      (\<forall>x \<in> set pre. ratio_value (quantize 6 example_line) (snd x) < 1) \<and>
      (\<forall>x \<in> set post. ratio_value (quantize 6 example_line) (snd x) \<le> 1))"
proof -
  have h1: "example_line \<noteq> []" by (simp add: example_line_def)
  have h2: "match_loop (quantize 6 example_line) example_index (None, 0) =
     Inr (Some [(''highway'', ''secondary'')], 1)" by code_simp
  from first_highest_ratio_wins [OF h1 h2] h1 h2 show ?thesis by simp
qed

section \<open>Node snapping\<close>

text \<open>
  C2, as the code has it: when the cache key of a coordinate is new, the node written to
  the sink carries the cache key itself, that is the coordinate rounded to 7 decimal
  places per component, with the next node id; over a whole run the locations of the
  written nodes are the distinct cache keys of the lines, in first-seen order.
\<close>

theorem written_location_is_key:
  "(node_cache self (coord_key c) = None \<longrightarrow>
      writer (fst (snap_coord self c)) =
        writer self @ [Node \<lparr>n_id = node_id self, n_location = coord_key c,
                              n_version = 1, n_visible = True\<rparr>]) \<and>
   (add_linestrings (creator_init data) lines = Inr self' \<longrightarrow>
      map n_location (out_nodes (writer self')) = first_seen (map coord_key (concat lines)))"
proof (intro conjI impI)
  assume "node_cache self (coord_key c) = None"
  then show "writer (fst (snap_coord self c)) =
        writer self @ [Node \<lparr>n_id = node_id self, n_location = coord_key c,
                              n_version = 1, n_visible = True\<rparr>]"
    by (simp add: snap_coord_new)
next
  assume "add_linestrings (creator_init data) lines = Inr self'"
  from run_inv_final [OF this]
  show "map n_location (out_nodes (writer self')) = first_seen (map coord_key (concat lines))"
    by (simp add: run_inv_def snap_inv_def)
qed

theorem written_location_is_key_witness:
  "node_cache (creator_init []) (coord_key example_raw) = None \<and>
   writer (fst (snap_coord (creator_init []) example_raw)) =
     writer (creator_init []) @
       [Node \<lparr>n_id = node_id (creator_init []), n_location = coord_key example_raw,
              n_version = 1, n_visible = True\<rparr>] \<and>
   add_linestrings (creator_init example_index) example_lines = Inr example_run \<and>
   map n_location (out_nodes (writer example_run)) =
     first_seen (map coord_key (concat example_lines)) \<and>
   first_seen (map coord_key (concat example_lines)) = [(0, 0), (1, 0), (5, 5)]"
proof -
  have h1: "node_cache (creator_init []) (coord_key example_raw) = None"
    by (simp add: creator_init_def)
  have v: "first_seen (map coord_key (concat example_lines)) = [(0, 0), (1, 0), (5, 5)]"
    by code_simp
  from written_location_is_key [of "creator_init []" example_raw example_index example_lines
      example_run] h1 example_run_ok v
  show ?thesis by blast
qed

text \<open>
  C2 as stated fails: the raw coordinate (1/1024, 0) has a new key in a new creator, and
  the node written for it is located at (0.0009766, 0), the rounded key, not at the raw
  coordinate.
\<close>

theorem raw_location_counterexample:
  "node_cache (creator_init []) (coord_key example_raw) = None \<and>
   writer (fst (snap_coord (creator_init []) example_raw)) =
     [Node \<lparr>n_id = 1, n_location = (4883 / 5000000, 0), n_version = 1, n_visible = True\<rparr>] \<and>
   example_raw = (1 / 1024, 0) \<and> example_raw \<noteq> (4883 / 5000000, 0)"
  by code_simp

text \<open>
  C4: two coordinates with the same cache key get the same node id. Looking up the
  second one right after the first returns the id of the first and leaves the state,
  hence the sink, as it was. Over a whole run, whatever the lines and their order: equal
  keys at any two positions of any two lines give equal node references in the written
  ways, each reference is the id of a written node located at that key, and no two
  written nodes have the same location, so at most one node is written per key.
\<close>

theorem same_key_same_node:
  "(coord_key c1 = coord_key c2 \<longrightarrow>
      snap_coord (fst (snap_coord self c1)) c2 = snap_coord self c1) \<and>
   (add_linestrings (creator_init data) lines = Inr self' \<longrightarrow>
      length (out_ways (writer self')) = length lines \<and>
      (\<forall>a < length lines. \<forall>i < length (lines ! a).
         \<forall>b < length lines. \<forall>j < length (lines ! b).
           coord_key (lines ! a ! i) = coord_key (lines ! b ! j) \<longrightarrow>
           w_nodes (out_ways (writer self') ! a) ! i = w_nodes (out_ways (writer self') ! b) ! j) \<and>
      (\<forall>a < length lines. \<forall>i < length (lines ! a).
         \<exists>n \<in> set (out_nodes (writer self')).
           n_location n = coord_key (lines ! a ! i) \<and>
           n_id n = w_nodes (out_ways (writer self') ! a) ! i) \<and>
      distinct (map n_location (out_nodes (writer self'))))"
proof (intro conjI impI)
  assume k: "coord_key c1 = coord_key c2"
  obtain s1 i where step: "snap_coord self c1 = (s1, i)" by (cases "snap_coord self c1")
  from snap_coord_frame(5) [OF step] k have "node_cache s1 (coord_key c2) = Some i" by simp
  from snap_coord_old [OF this] step
  show "snap_coord (fst (snap_coord self c1)) c2 = snap_coord self c1" by simp
next
  assume run: "add_linestrings (creator_init data) lines = Inr self'"
  note inv = run_inv_final [OF run]
  show "length (out_ways (writer self')) = length lines"
    using inv by (auto simp: run_inv_def dest: list_all2_lengthD)
  show "\<forall>a < length lines. \<forall>i < length (lines ! a).
         \<forall>b < length lines. \<forall>j < length (lines ! b).
           coord_key (lines ! a ! i) = coord_key (lines ! b ! j) \<longrightarrow>
           w_nodes (out_ways (writer self') ! a) ! i = w_nodes (out_ways (writer self') ! b) ! j"
    by (simp add: run_way_ref [OF inv])
  show "\<forall>a < length lines. \<forall>i < length (lines ! a).
         \<exists>n \<in> set (out_nodes (writer self')).
           n_location n = coord_key (lines ! a ! i) \<and>
           n_id n = w_nodes (out_ways (writer self') ! a) ! i"
  proof (intro allI impI)
    fix a i assume a: "a < length lines" and i: "i < length (lines ! a)"
    then have "lines ! a ! i \<in> set (concat lines)" by (auto intro: nth_mem)
    from run_key_node [OF inv this] show "\<exists>n \<in> set (out_nodes (writer self')).
           n_location n = coord_key (lines ! a ! i) \<and>
           n_id n = w_nodes (out_ways (writer self') ! a) ! i"
      by (simp add: run_way_ref [OF inv a i])
  qed
  show "distinct (map n_location (out_nodes (writer self')))"
    using inv by (simp add: run_inv_def snap_inv_def)
qed

theorem same_key_same_node_witness:
  "coord_key (5 + 1 / 2 ^ 30, 5) = coord_key (5, 5 + 1 / 2 ^ 30) \<and>
   snap_coord (fst (snap_coord (creator_init []) (5 + 1 / 2 ^ 30, 5))) (5, 5 + 1 / 2 ^ 30) =
     snap_coord (creator_init []) (5 + 1 / 2 ^ 30, 5) \<and>
   add_linestrings (creator_init example_index) example_lines = Inr example_run \<and>
   example_lines ! 0 ! 2 = (5 + 1 / 2 ^ 30, 5) \<and> example_lines ! 1 ! 0 = (5, 5 + 1 / 2 ^ 30) \<and>
   w_nodes (out_ways (writer example_run) ! 0) ! 2 = w_nodes (out_ways (writer example_run) ! 1) ! 0 \<and>
   map w_nodes (out_ways (writer example_run)) = [[1, 2, 3], [3, 1]] \<and>
   distinct (map n_location (out_nodes (writer example_run)))"
proof -
  have k: "coord_key (5 + 1 / 2 ^ 30, 5) = coord_key (5, 5 + 1 / 2 ^ 30)" by code_simp
  have e: "example_lines ! 0 ! 2 = (5 + 1 / 2 ^ 30, 5)" "example_lines ! 1 ! 0 = (5, 5 + 1 / 2 ^ 30)"
    by (simp_all add: example_lines_def)
  have b: "0 < length example_lines" "2 < length (example_lines ! 0)"
    "1 < length example_lines" "0 < length (example_lines ! 1)"
    by (simp_all add: example_lines_def)
  have v: "map w_nodes (out_ways (writer example_run)) = [[1, 2, 3], [3, 1]]" by code_simp
  note inst = same_key_same_node [of "(5 + 1 / 2 ^ 30, 5)" "(5, 5 + 1 / 2 ^ 30)" "creator_init []"
      example_index example_lines example_run]
  from inst k have step: "snap_coord (fst (snap_coord (creator_init []) (5 + 1 / 2 ^ 30, 5)))
      (5, 5 + 1 / 2 ^ 30) = snap_coord (creator_init []) (5 + 1 / 2 ^ 30, 5)" by blast
  from inst example_run_ok have all: "\<forall>a < length example_lines. \<forall>i < length (example_lines ! a).
         \<forall>b < length example_lines. \<forall>j < length (example_lines ! b).
           coord_key (example_lines ! a ! i) = coord_key (example_lines ! b ! j) \<longrightarrow>
           w_nodes (out_ways (writer example_run) ! a) ! i =
           w_nodes (out_ways (writer example_run) ! b) ! j"
    and d: "distinct (map n_location (out_nodes (writer example_run)))" by blast+
  from all b k e have "w_nodes (out_ways (writer example_run) ! 0) ! 2 =
      w_nodes (out_ways (writer example_run) ! 1) ! 0" by metis
  with k step example_run_ok e v d show ?thesis by blast
qed

text \<open>
  C5: over one run the ids of the written nodes are 1, 2, ..., K in this order, where K
  is the number of distinct cache keys of the coordinates of all lines, and the node
  with id i sits at the i-th distinct key in first-seen order.
\<close>

theorem node_ids_first_seen:
  assumes "add_linestrings (creator_init data) lines = Inr self"
  shows "map (\<lambda>n. (n_id n, n_location n)) (out_nodes (writer self)) =
           zip [1 .. int (card (coord_key ` set (concat lines)))]
               (first_seen (map coord_key (concat lines)))"
proof -
  have inv: "snap_inv self (map coord_key (concat lines))"
    using run_inv_final [OF assms] by (simp add: run_inv_def)
  have "length (first_seen (map coord_key (concat lines))) = card (coord_key ` set (concat lines))"
    by (simp add: length_first_seen)
  with inv have "map n_id (out_nodes (writer self)) = [1 .. int (card (coord_key ` set (concat lines)))]"
    and "map n_location (out_nodes (writer self)) = first_seen (map coord_key (concat lines))"
    by (simp_all add: snap_inv_def)
  then show ?thesis using zip_map_both [of n_id "out_nodes (writer self)" n_location] by simp
qed

theorem node_ids_first_seen_witness:
  "add_linestrings (creator_init example_index) example_lines = Inr example_run \<and>
   map (\<lambda>n. (n_id n, n_location n)) (out_nodes (writer example_run)) =
     zip [1 .. int (card (coord_key ` set (concat example_lines)))]
         (first_seen (map coord_key (concat example_lines))) \<and>
   map (\<lambda>n. (n_id n, n_location n)) (out_nodes (writer example_run)) =
     [(1, (0, 0)), (2, (1, 0)), (3, (5, 5))]"
proof -
  have v: "map (\<lambda>n. (n_id n, n_location n)) (out_nodes (writer example_run)) =
     [(1, (0, 0)), (2, (1, 0)), (3, (5, 5))]" by code_simp
  from node_ids_first_seen [OF example_run_ok] example_run_ok v show ?thesis by blast
qed

section \<open>Emitted ways\<close>

text \<open>
  C6: when the geometry document and the map-data file are read and every line has a
  coordinate, the run completes and leaves in the output file ways with the ids
  1, 2, ..., M in this order, where M is the number of lines after each LineString has
  contributed itself and each MultiLineString each of its parts. The i-th way belongs to
  the i-th of these lines: one node reference per coordinate and the tags of that
  line's own match, or the fallback.
\<close>

theorem way_ids_in_line_order:
  assumes gj: "fs geojson_path = Some (GeoJson gj)" and pbf: "fs input_pbf = Some (Pbf objs)"
    and ne1: "geojson_path \<noteq> output_pbf" and ne2: "input_pbf \<noteq> output_pbf"
    and lines: "\<forall>l \<in> set (concat (map lines_of (features_of gj))). l \<noteq> []"
  shows "\<exists>written.
           run_conversion fs input_pbf geojson_path output_pbf =
             (fs(output_pbf \<mapsto> Pbf written), None) \<and>
           map w_id (out_ways written) =
             [1 .. int (length (concat (map lines_of (features_of gj))))] \<and>
           list_all2 (\<lambda>w l. length (w_nodes w) = length l \<and>
                         (\<exists>found. find_matching_tags (ways (apply_file extractor_init objs)) l
                                     = Inr found \<and>
                                  w_tags w = tags_or_fallback found))
                     (out_ways written) (concat (map lines_of (features_of gj)))"
proof -
  let ?data = "ways (apply_file extractor_init objs)"
  let ?lines = "concat (map lines_of (features_of gj))"
  obtain self where run: "add_linestrings (creator_init ?data) ?lines = Inr self"
    using add_linestrings_total [OF lines] by blast
  note inv = run_inv_final [OF run]
  have res: "run_conversion fs input_pbf geojson_path output_pbf =
               (fs(output_pbf \<mapsto> Pbf (writer self)), None)"
    using run_conversion_completes [OF gj pbf ne1 ne2] run by simp
  have ids: "map w_id (out_ways (writer self)) = [1 .. int (length ?lines)]"
    using inv by (simp add: run_inv_def)
  have "list_all2 (way_of_line ?data (node_cache self)) (out_ways (writer self)) ?lines"
    using inv by (simp add: run_inv_def)
  then have ways: "list_all2 (\<lambda>w l. length (w_nodes w) = length l \<and>
                         (\<exists>found. find_matching_tags ?data l = Inr found \<and>
                                  w_tags w = tags_or_fallback found))
                     (out_ways (writer self)) ?lines"
    by (rule list_all2_mono) (simp add: way_of_line_def)
  from res ids ways show ?thesis by blast
qed

theorem way_ids_in_line_order_witness:
  "example_fs ''routes.geojson'' = Some (GeoJson example_geojson) \<and>
   example_fs ''in.pbf'' = Some (Pbf example_pbf) \<and>
   concat (map lines_of (features_of example_geojson)) =
     [[(0, 0), (1, 0)], [(1, 0), (2, 2)], [(2, 2), (3, 3), (0, 0)]] \<and>
   (\<exists>written.
      run_conversion example_fs ''in.pbf'' ''routes.geojson'' ''out.pbf'' =
        (example_fs(''out.pbf'' \<mapsto> Pbf written), None) \<and>
      map w_id (out_ways written) = [1, 2, 3])"
proof -
  have h1: "example_fs ''routes.geojson'' = Some (GeoJson example_geojson)"
    by (simp add: example_fs_def)
  have h2: "example_fs ''in.pbf'' = Some (Pbf example_pbf)" by (simp add: example_fs_def)
  have h3: "''routes.geojson'' \<noteq> ''out.pbf''" by simp
  have h4: "''in.pbf'' \<noteq> ''out.pbf''" by simp
  have v: "concat (map lines_of (features_of example_geojson)) =
     [[(0, 0), (1, 0)], [(1, 0), (2, 2)], [(2, 2), (3, 3), (0, 0)]]"
    by (simp add: example_geojson_def features_of_def)
  have h5: "\<forall>l \<in> set (concat (map lines_of (features_of example_geojson))). l \<noteq> []"
    unfolding v by simp
  from way_ids_in_line_order [OF h1 h2 h3 h4 h5]
  obtain written where w: "run_conversion example_fs ''in.pbf'' ''routes.geojson'' ''out.pbf'' =
        (example_fs(''out.pbf'' \<mapsto> Pbf written), None)"
    "map w_id (out_ways written) =
       [1 .. int (length (concat (map lines_of (features_of example_geojson))))]" by blast
  have "[1 .. int (length (concat (map lines_of (features_of example_geojson))))] = [1, 2, 3]"
    unfolding v by code_simp
  with w h1 h2 v show ?thesis by auto
qed

section \<open>Building the index\<close>

text \<open>
  C7: the \<open>way\<close> callback stores a path if and only if its tags contain the key
  \<open>highway\<close> and at least two of its node references are known; otherwise the
  extractor is unchanged. The stored coordinates are those of the known references, in
  order, the unknown ones dropped. The known nodes at that moment are the ones that come
  earlier in the file.
\<close>

theorem way_retained_iff:
  "way self w =
     (if ''highway'' \<in> fst ` set (w_tags w) \<and>
         2 \<le> length (filter (\<lambda>r. r \<in> dom (nodes self)) (w_nodes w))
      then self\<lparr>ways := AList.update (w_id w)
             \<lparr>wd_tags = w_tags w,
              wd_coords = map (\<lambda>r. the (nodes self r))
                              (filter (\<lambda>r. r \<in> dom (nodes self)) (w_nodes w))\<rparr>
             (ways self)\<rparr>
      else self) \<and>
   apply_file extractor_init (before @ Way w # after) =
     apply_file (way (apply_file extractor_init before) w) after \<and>
   dom (nodes (apply_file extractor_init before)) = n_id ` set (out_nodes before)"
proof (intro conjI)
  have "(\<lambda>r. r \<in> dom (nodes self)) = (\<lambda>r. nodes self r \<noteq> None)" by (auto simp: dom_def)
  then show "way self w =
     (if ''highway'' \<in> fst ` set (w_tags w) \<and>
         2 \<le> length (filter (\<lambda>r. r \<in> dom (nodes self)) (w_nodes w))
      then self\<lparr>ways := AList.update (w_id w)
             \<lparr>wd_tags = w_tags w,
              wd_coords = map (\<lambda>r. the (nodes self r))
                              (filter (\<lambda>r. r \<in> dom (nodes self)) (w_nodes w))\<rparr>
             (ways self)\<rparr>
      else self)"
    by (simp add: way_def Let_def resolve_refs_filter)
  show "apply_file extractor_init (before @ Way w # after) =
     apply_file (way (apply_file extractor_init before) w) after"
    by (simp add: apply_file_append)
  show "dom (nodes (apply_file extractor_init before)) = n_id ` set (out_nodes before)"
    by (simp add: dom_nodes_apply_file extractor_init_def)
qed

theorem way_retained_iff_witness:
  "''highway'' \<in> fst ` set (w_tags example_way) \<and>
   2 \<le> length (filter (\<lambda>r. r \<in> dom (nodes (apply_file extractor_init (take 2 example_pbf))))
                      (w_nodes example_way)) \<and>
   ways (way (apply_file extractor_init (take 2 example_pbf)) example_way) =
     [(3, \<lparr>wd_tags = [(''highway'', ''primary'')], wd_coords = [(0, 0), (1, 0)]\<rparr>)] \<and>
   ways (apply_file extractor_init example_pbf) =
     [(3, \<lparr>wd_tags = [(''highway'', ''primary'')], wd_coords = [(0, 0), (1, 0)]\<rparr>)]"
proof -
  let ?self = "apply_file extractor_init (take 2 example_pbf)"
  have n: "nodes ?self = [7 \<mapsto> (0, 0), 8 \<mapsto> (1, 0)]"
    by (simp add: example_pbf_def extractor_init_def node_def)
  have h1: "''highway'' \<in> fst ` set (w_tags example_way)" by (simp add: example_way_def)
  have h2: "2 \<le> length (filter (\<lambda>r. r \<in> dom (nodes ?self)) (w_nodes example_way))"
    unfolding n by (simp add: example_way_def)
  have w: "ways ?self = []" by (simp add: example_pbf_def extractor_init_def node_def)
  have v: "ways (apply_file extractor_init example_pbf) =
     [(3, \<lparr>wd_tags = [(''highway'', ''primary'')], wd_coords = [(0, 0), (1, 0)]\<rparr>)]"
    by code_simp
  from way_retained_iff [of ?self example_way "[]" "[]"] h1 h2
  have "way ?self example_way =
     ?self\<lparr>ways := AList.update (w_id example_way)
             \<lparr>wd_tags = w_tags example_way,
              wd_coords = map (\<lambda>r. the (nodes ?self r))
                              (filter (\<lambda>r. r \<in> dom (nodes ?self)) (w_nodes example_way))\<rparr>
             (ways ?self)\<rparr>" by simp
  then have "ways (way ?self example_way) =
     [(3, \<lparr>wd_tags = [(''highway'', ''primary'')], wd_coords = [(0, 0), (1, 0)]\<rparr>)]"
    unfolding n w by (simp add: example_way_def)
  with h1 h2 v show ?thesis by blast
qed

section \<open>The output file on a failed run\<close>

text \<open>
  C10: when the geometry file is missing or is not a well-formed geometry document, the
  run ends with an exception and the output path holds no file any more; a file that was
  there before the run is gone, so the file system is not left as it was.
\<close>

theorem output_removed_before_geometry_read:
  assumes "fs geojson_path = None \<or>
           (\<exists>c. fs geojson_path = Some c \<and> (\<forall>gj. c \<noteq> GeoJson gj))"
  shows "\<exists>e. run_conversion fs input_pbf geojson_path output_pbf =
               (fs(output_pbf := None), Some e) \<and>
             (fs output_pbf \<noteq> None \<longrightarrow> fs(output_pbf := None) \<noteq> fs)"
proof -
  have fs1: "(if fs output_pbf \<noteq> None then fs(output_pbf := None) else fs) = fs(output_pbf := None)"
    by auto
  have changed: "fs output_pbf \<noteq> None \<longrightarrow> fs(output_pbf := None) \<noteq> fs"
    by (metis fun_upd_same)
  show ?thesis
  proof (cases "(fs(output_pbf := None)) geojson_path")
    case None
    from run_conversion_missing_geometry [OF None] changed show ?thesis by blast
  next
    case (Some c)
    then have ne: "geojson_path \<noteq> output_pbf" and c: "fs geojson_path = Some c"
      by (auto split: if_splits)
    with assms have "\<forall>gj. c \<noteq> GeoJson gj" by auto
    then have "run_conversion fs input_pbf geojson_path output_pbf =
                 (fs(output_pbf := None), Some MalformedGeometry)"
      unfolding run_conversion_def fs1 Let_def using Some by (cases c) simp_all
    with changed show ?thesis by blast
  qed
qed

theorem output_removed_before_geometry_read_witness:
  "example_fs ''missing.geojson'' = None \<and> example_fs ''out.pbf'' \<noteq> None \<and>
   run_conversion example_fs ''in.pbf'' ''missing.geojson'' ''out.pbf'' =
     (example_fs(''out.pbf'' := None), Some FileNotFoundError) \<and>
   example_fs(''out.pbf'' := None) \<noteq> example_fs"
proof -
  have h: "example_fs ''missing.geojson'' = None" by (simp add: example_fs_def)
  have o: "example_fs ''out.pbf'' \<noteq> None" by (simp add: example_fs_def)
  from output_removed_before_geometry_read [where fs = example_fs
      and geojson_path = "''missing.geojson''" and output_pbf = "''out.pbf''"
      and input_pbf = "''in.pbf''"] h
  obtain e where e: "run_conversion example_fs ''in.pbf'' ''missing.geojson'' ''out.pbf'' =
               (example_fs(''out.pbf'' := None), Some e)"
    and c: "example_fs ''out.pbf'' \<noteq> None \<longrightarrow> example_fs(''out.pbf'' := None) \<noteq> example_fs"
    by blast
  have "snd (run_conversion example_fs ''in.pbf'' ''missing.geojson'' ''out.pbf'') =
          Some FileNotFoundError" by code_simp
  with e have "e = FileNotFoundError" by simp
  with e c h o show ?thesis by blast
qed

end
